theory Spec2Isabelle
  imports Complex_Main
begin

section \<open>Values of the program\<close>

text \<open>
  The service in \<^verbatim>\<open>app.py\<close> handles values that come out of a JSON parser: the request
  body, the reply of the completion API and the reply of the search API. A Python value
  of that kind is \<^verbatim>\<open>None\<close>, a bool, an int, a float, a str, a list or a dict with str keys.
  A dict is an association list in insertion order, looked up with \<open>map_of\<close>; the keys of a
  Python dict are distinct. A finite float is represented by the rational number it
  denotes; the tokens \<^verbatim>\<open>NaN\<close> and \<^verbatim>\<open>Infinity\<close>, which are not JSON, are left out.
  A \<open>string\<close> is a list of characters with code points below 256.
\<close>

datatype json =
    JNull
  | JBool bool
  | JInt int
  | JFloat rat
  | JStr string
  | JArr "json list"
  | JObj "(string \<times> json) list"

text \<open>
  The exceptions of the program, by class. \<open>RequestException\<close> stands for the class
  \<^verbatim>\<open>requests.RequestException\<close> and its subclasses, \<open>OtherException\<close> for any other
  subclass of \<^verbatim>\<open>Exception\<close> that a library call may raise.
\<close>

datatype py_error =
    AttributeError
  | TypeError
  | KeyError
  | IndexError
  | ValueError
  | RequestException
  | OtherException string

text \<open>
  \<^verbatim>\<open>RecursionError\<close>, which the interpreter raises at a call that would make the call
  stack deeper than its recursion limit.
\<close>

definition RecursionError :: py_error where
  "RecursionError = OtherException ''RecursionError''"

text \<open>Truth value of a Python object, as \<^verbatim>\<open>not data\<close> tests it.\<close>

fun truthy :: "json \<Rightarrow> bool" where
  "truthy JNull = False"
| "truthy (JBool b) = b"
| "truthy (JInt i) = (i \<noteq> 0)"
| "truthy (JFloat r) = (r \<noteq> 0)"
| "truthy (JStr s) = (s \<noteq> [])"
| "truthy (JArr xs) = (xs \<noteq> [])"
| "truthy (JObj kvs) = (kvs \<noteq> [])"

text \<open>\<^verbatim>\<open>d.get(key, default)\<close>: only a dict has the method.\<close>

fun dict_get :: "json \<Rightarrow> string \<Rightarrow> json \<Rightarrow> py_error + json" where
  "dict_get (JObj kvs) k dflt = Inr (case map_of kvs k of None \<Rightarrow> dflt | Some v \<Rightarrow> v)"
| "dict_get _ k dflt = Inl AttributeError"

text \<open>\<^verbatim>\<open>x[key]\<close> with a str key.\<close>

fun getitem_key :: "json \<Rightarrow> string \<Rightarrow> py_error + json" where
  "getitem_key (JObj kvs) k = (case map_of kvs k of None \<Rightarrow> Inl KeyError | Some v \<Rightarrow> Inr v)"
| "getitem_key _ k = Inl TypeError"

text \<open>\<^verbatim>\<open>x[0]\<close>. A dict with str keys has no key \<^verbatim>\<open>0\<close>.\<close>

fun getitem_0 :: "json \<Rightarrow> py_error + json" where
  "getitem_0 (JArr []) = Inl IndexError"
| "getitem_0 (JArr (x # xs)) = Inr x"
| "getitem_0 (JStr []) = Inl IndexError"
| "getitem_0 (JStr (c # cs)) = Inr (JStr [c])"
| "getitem_0 (JObj kvs) = Inl KeyError"
| "getitem_0 _ = Inl TypeError"

section \<open>Text Normalizer\<close>

text \<open>
  \<^verbatim>\<open>str.isspace\<close> on one character: the code points 9 to 13, 28 to 32, 133 and 160 are the
  whitespace characters below 256.
\<close>

definition isspace :: "char \<Rightarrow> bool" where
  "isspace c =
     (let n = (of_char c :: nat)
      in (9 \<le> n \<and> n \<le> 13) \<or> (28 \<le> n \<and> n \<le> 32) \<or> n = 133 \<or> n = 160)"

text \<open>\<^verbatim>\<open>str.strip()\<close> without argument.\<close>

definition strip :: "string \<Rightarrow> string" where
  "strip s = rev (dropWhile isspace (rev (dropWhile isspace s)))"

text \<open>The method call \<^verbatim>\<open>x.strip()\<close>: only a str has the method.\<close>

fun method_strip :: "json \<Rightarrow> py_error + string" where
  "method_strip (JStr s) = Inr (strip s)"
| "method_strip _ = Inl AttributeError"

text \<open>
  \<^verbatim>\<open>def preprocess_text(text): return text.strip()\<close>. The argument is whatever the
  caller passes.
\<close>

definition preprocess_text :: "json \<Rightarrow> py_error + string" where
  "preprocess_text text = method_strip text"

section \<open>Configuration, outside world and log\<close>

text \<open>
  The three settings read at start-up (\<^verbatim>\<open>MAX_TOKENS\<close>, \<^verbatim>\<open>SEARCH_RESULT_COUNT\<close>,
  \<^verbatim>\<open>SEARCH_RETRY_LIMIT\<close>), Python ints.
\<close>

record config =
  max_tokens :: int
  search_result_count :: int
  search_retry_limit :: int

text \<open>One entry per logging call of the program, with the exception or query it prints.\<close>

datatype log_entry =
    GptSummarizationError py_error
  | SearchRetryLimitReached string
  | SearchRequestFailed py_error
  | ErrorSummarizingText py_error
  | ErrorFetchingSources py_error
  | UnhandledError py_error

datatype log_level = Warning | Error

fun level :: "log_entry \<Rightarrow> log_level" where
  "level (SearchRequestFailed e) = Warning"
| "level _ = Error"

text \<open>
  What a run leaves behind: the number of search requests sent so far and the log.
\<close>

record world =
  search_requests :: nat
  logged :: "log_entry list"

definition logging :: "log_entry \<Rightarrow> world \<Rightarrow> world" where
  "logging entry w = w\<lparr>logged := logged w @ [entry]\<rparr>"

text \<open>
  The two remote services are parameters. \<open>llm mt msg\<close> is the outcome of
  \<^verbatim>\<open>openai.ChatCompletion.create\<close> with \<^verbatim>\<open>max_tokens\<close> \<open>mt\<close> and user message \<open>msg\<close>: an
  exception or the response object. \<open>bing q c n\<close> is the outcome of the request number \<open>n\<close>
  (counted from 0) for query \<open>q\<close> and count \<open>c\<close>, that is of \<^verbatim>\<open>requests.get\<close>,
  \<^verbatim>\<open>raise_for_status\<close> and \<^verbatim>\<open>response.json()\<close> together: an exception or the parsed body.
\<close>

type_synonym llm_service = "int \<Rightarrow> string \<Rightarrow> py_error + json"
type_synonym search_service = "string \<Rightarrow> int \<Rightarrow> nat \<Rightarrow> py_error + json"

section \<open>Summarizer Client\<close>

text \<open>\<^verbatim>\<open>response['choices'][0]['message']['content']\<close>\<close>

definition response_content :: "json \<Rightarrow> py_error + json" where
  "response_content response =
     (case getitem_key response ''choices'' of Inl e \<Rightarrow> Inl e | Inr choices \<Rightarrow>
      case getitem_0 choices of Inl e \<Rightarrow> Inl e | Inr choice \<Rightarrow>
      case getitem_key choice ''message'' of Inl e \<Rightarrow> Inl e | Inr message \<Rightarrow>
      getitem_key message ''content'')"

text \<open>
  \<^verbatim>\<open>summary = response[...]['content'].strip()\<close>, then
  \<^verbatim>\<open>if not summary: raise ValueError("Empty summary returned by GPT.")\<close>.
\<close>

definition extract_summary :: "json \<Rightarrow> py_error + string" where
  "extract_summary response =
     (case response_content response of Inl e \<Rightarrow> Inl e | Inr content \<Rightarrow>
      case method_strip content of Inl e \<Rightarrow> Inl e | Inr summary \<Rightarrow>
      if summary = [] then Inl ValueError else Inr summary)"

text \<open>
  \<^verbatim>\<open>summarize_text\<close>: every exception of the call or of the extraction is logged and raised
  again.
\<close>

definition summarize_text ::
  "config \<Rightarrow> llm_service \<Rightarrow> string \<Rightarrow> world \<Rightarrow> (py_error + string) \<times> world" where
  "summarize_text cfg llm text w =
     (case (case llm (max_tokens cfg) (''Summarize and analyze: '' @ text) of
              Inl e \<Rightarrow> Inl e
            | Inr response \<Rightarrow> extract_summary response) of
        Inl e \<Rightarrow> (Inl e, logging (GptSummarizationError e) w)
      | Inr summary \<Rightarrow> (Inr summary, w))"

section \<open>Alternative-Source Finder\<close>

text \<open>A link is the dict with the keys \<^verbatim>\<open>title\<close>, \<^verbatim>\<open>url\<close> and \<^verbatim>\<open>snippet\<close>.\<close>

record link =
  title :: json
  url :: json
  snippet :: json

text \<open>
  \<^verbatim>\<open>for result in x\<close>: a list gives its items, a dict its keys, a str its characters;
  nothing else can be iterated.
\<close>

fun iterate :: "json \<Rightarrow> py_error + json list" where
  "iterate (JArr xs) = Inr xs"
| "iterate (JObj kvs) = Inr (map (\<lambda>kv. JStr (fst kv)) kvs)"
| "iterate (JStr s) = Inr (map (\<lambda>c. JStr [c]) s)"
| "iterate _ = Inl TypeError"

text \<open>The body of the list comprehension: three \<^verbatim>\<open>result.get\<close> calls.\<close>

definition to_link :: "json \<Rightarrow> py_error + link" where
  "to_link result =
     (case dict_get result ''name'' JNull of Inl e \<Rightarrow> Inl e | Inr t \<Rightarrow>
      case dict_get result ''url'' JNull of Inl e \<Rightarrow> Inl e | Inr u \<Rightarrow>
      case dict_get result ''snippet'' JNull of Inl e \<Rightarrow> Inl e | Inr s \<Rightarrow>
      Inr \<lparr>title = t, url = u, snippet = s\<rparr>)"

fun to_links :: "json list \<Rightarrow> py_error + link list" where
  "to_links [] = Inr []"
| "to_links (result # results) =
     (case to_link result of Inl e \<Rightarrow> Inl e | Inr l \<Rightarrow>
      case to_links results of Inl e \<Rightarrow> Inl e | Inr ls \<Rightarrow> Inr (l # ls))"

text \<open>
  \<^verbatim>\<open>links = [... for result in search_results.get("webPages", {}).get("value", [])]\<close>
\<close>

definition build_links :: "json \<Rightarrow> py_error + link list" where
  "build_links search_results =
     (case dict_get search_results ''webPages'' (JObj []) of Inl e \<Rightarrow> Inl e | Inr web_pages \<Rightarrow>
      case dict_get web_pages ''value'' (JArr []) of Inl e \<Rightarrow> Inl e | Inr v \<Rightarrow>
      case iterate v of Inl e \<Rightarrow> Inl e | Inr results \<Rightarrow>
      to_links results)"

text \<open>
  Keys of a Python dict. Two objects are the same key when they are equal and hash alike:
  \<^verbatim>\<open>True\<close>, \<^verbatim>\<open>1\<close> and \<^verbatim>\<open>1.0\<close> are one key, and so are \<^verbatim>\<open>False\<close>, \<^verbatim>\<open>0\<close> and \<^verbatim>\<open>0.0\<close>. A list or
  a dict cannot be hashed.
\<close>

datatype dict_key = KNone | KNum rat | KStr string

fun hash_key :: "json \<Rightarrow> py_error + dict_key" where
  "hash_key JNull = Inr KNone"
| "hash_key (JBool b) = Inr (KNum (if b then 1 else 0))"
| "hash_key (JInt i) = Inr (KNum (of_int i))"
| "hash_key (JFloat r) = Inr (KNum r)"
| "hash_key (JStr s) = Inr (KStr s)"
| "hash_key (JArr xs) = Inl TypeError"
| "hash_key (JObj kvs) = Inl TypeError"

text \<open>
  \<^verbatim>\<open>d[k] = v\<close> on a dict in insertion order: a key already present keeps its place and
  gets the new value, a new key goes to the end.
\<close>

fun dict_setitem :: "(dict_key \<times> 'v) list \<Rightarrow> dict_key \<Rightarrow> 'v \<Rightarrow> (dict_key \<times> 'v) list" where
  "dict_setitem [] k v = [(k, v)]"
| "dict_setitem ((k', v') # d) k v =
     (if k' = k then (k', v) # d else (k', v') # dict_setitem d k v)"

text \<open>The dict comprehension \<^verbatim>\<open>{link['url']: link for link in links}\<close>, from a dict \<open>d\<close>.\<close>

fun url_dict :: "(dict_key \<times> link) list \<Rightarrow> link list \<Rightarrow> py_error + (dict_key \<times> link) list" where
  "url_dict d [] = Inr d"
| "url_dict d (l # ls) =
     (case hash_key (url l) of Inl e \<Rightarrow> Inl e | Inr k \<Rightarrow> url_dict (dict_setitem d k l) ls)"

text \<open>\<^verbatim>\<open>list({link['url']: link for link in links}.values())\<close>\<close>

definition unique_links :: "link list \<Rightarrow> py_error + link list" where
  "unique_links links = (case url_dict [] links of Inl e \<Rightarrow> Inl e | Inr d \<Rightarrow> Inr (map snd d))"

text \<open>
  \<^verbatim>\<open>search_alternative_sources(query, retry_count)\<close>. Only a \<open>RequestException\<close> of the
  request is caught and retried; every other exception raised while the reply is processed leaves the
  function. Here the call stack is taken to have room
  for every nested call; \<open>search_alternative_sources_stack\<close> below is the same function on a
  stack of bounded depth.
\<close>

function search_alternative_sources ::
  "config \<Rightarrow> search_service \<Rightarrow> string \<Rightarrow> int \<Rightarrow> world \<Rightarrow> (py_error + link list) \<times> world" where
  "search_alternative_sources cfg bing query retry_count w =
     (if retry_count \<ge> search_retry_limit cfg
      then (Inr [], logging (SearchRetryLimitReached query) w)
      else
        (case bing query (search_result_count cfg) (search_requests w) of
           Inl e \<Rightarrow>
             if e = RequestException
             then search_alternative_sources cfg bing query (retry_count + 1)
                    (logging (SearchRequestFailed e) (w\<lparr>search_requests := Suc (search_requests w)\<rparr>))
             else (Inl e, w\<lparr>search_requests := Suc (search_requests w)\<rparr>)
         | Inr search_results \<Rightarrow>
             (case build_links search_results of
                Inl e \<Rightarrow> (Inl e, w\<lparr>search_requests := Suc (search_requests w)\<rparr>)
              | Inr links \<Rightarrow> (unique_links links, w\<lparr>search_requests := Suc (search_requests w)\<rparr>))))"
  by pat_completeness auto
termination
  by (relation "measure (\<lambda>(cfg, bing, query, retry_count, w). nat (search_retry_limit cfg - retry_count))")
     auto

declare search_alternative_sources.simps [simp del]

text \<open>
  The same function with the interpreter's recursion limit. Every retry is a call nested
  in the one before, and \<open>frames\<close> is the number of nested calls the interpreter still
  admits below the running one. When none is left, the recursive call in the handler
  raises \<^verbatim>\<open>RecursionError\<close>, after the warning has been logged; no frame of the function
  catches it. A library call that itself runs out of stack is among the exceptions a
  service may answer with.
\<close>

function search_alternative_sources_stack ::
  "nat \<Rightarrow> config \<Rightarrow> search_service \<Rightarrow> string \<Rightarrow> int \<Rightarrow> world \<Rightarrow> (py_error + link list) \<times> world" where
  "search_alternative_sources_stack frames cfg bing query retry_count w =
     (if retry_count \<ge> search_retry_limit cfg
      then (Inr [], logging (SearchRetryLimitReached query) w)
      else
        (case bing query (search_result_count cfg) (search_requests w) of
           Inl e \<Rightarrow>
             if e = RequestException
             then (case frames of
                     0 \<Rightarrow>
                       (Inl RecursionError,
                        logging (SearchRequestFailed e) (w\<lparr>search_requests := Suc (search_requests w)\<rparr>))
                   | Suc frames' \<Rightarrow>
                       search_alternative_sources_stack frames' cfg bing query (retry_count + 1)
                         (logging (SearchRequestFailed e) (w\<lparr>search_requests := Suc (search_requests w)\<rparr>)))
             else (Inl e, w\<lparr>search_requests := Suc (search_requests w)\<rparr>)
         | Inr search_results \<Rightarrow>
             (case build_links search_results of
                Inl e \<Rightarrow> (Inl e, w\<lparr>search_requests := Suc (search_requests w)\<rparr>)
              | Inr links \<Rightarrow> (unique_links links, w\<lparr>search_requests := Suc (search_requests w)\<rparr>))))"
  by pat_completeness auto
termination
  by (relation "measure (\<lambda>(frames, cfg, bing, query, retry_count, w). nat (search_retry_limit cfg - retry_count))")
     auto

declare search_alternative_sources_stack.simps [simp del]

section \<open>Request Orchestrator\<close>

record response =
  status :: nat
  body :: json

text \<open>\<^verbatim>\<open>jsonify\<close> of a dict with the one key \<^verbatim>\<open>error\<close>, and of the links.\<close>

definition error_body :: "string \<Rightarrow> json" where
  "error_body msg = JObj [(''error'', JStr msg)]"

definition link_json :: "link \<Rightarrow> json" where
  "link_json l = JObj [(''title'', title l), (''url'', url l), (''snippet'', snippet l)]"

text \<open>The outermost handler of \<^verbatim>\<open>analyze_content\<close>.\<close>

definition unexpected :: "py_error \<Rightarrow> world \<Rightarrow> response \<times> world" where
  "unexpected e w =
     (\<lparr>status = 500, body = error_body ''An unexpected error occurred''\<rparr>,
      logging (UnhandledError e) w)"

text \<open>\<^verbatim>\<open>isinstance(metadata, dict)\<close>\<close>

fun is_dict :: "json \<Rightarrow> bool" where
  "is_dict (JObj kvs) = True"
| "is_dict _ = False"

text \<open>
  \<^verbatim>\<open>analyze_content\<close>. \<open>request_json\<close> is the outcome of \<^verbatim>\<open>request.get_json()\<close>: an
  exception or the parsed body (\<open>JNull\<close> for \<^verbatim>\<open>None\<close>).
\<close>

definition analyze_content ::
  "config \<Rightarrow> llm_service \<Rightarrow> search_service \<Rightarrow> py_error + json \<Rightarrow> world \<Rightarrow> response \<times> world" where
  "analyze_content cfg llm bing request_json w =
     (case request_json of Inl e \<Rightarrow> unexpected e w | Inr data \<Rightarrow>
      if \<not> truthy data
      then (\<lparr>status = 400, body = error_body ''Invalid or missing JSON body''\<rparr>, w)
      else
      case dict_get data ''content'' (JStr []) of Inl e \<Rightarrow> unexpected e w | Inr content \<Rightarrow>
      case preprocess_text content of Inl e \<Rightarrow> unexpected e w | Inr text \<Rightarrow>
      case dict_get data ''metadata'' (JObj []) of Inl e \<Rightarrow> unexpected e w | Inr metadata \<Rightarrow>
      if text = []
      then (\<lparr>status = 400, body = error_body ''No content provided''\<rparr>, w)
      else
      case summarize_text cfg llm text w of
        (Inl e, w1) \<Rightarrow>
          (\<lparr>status = 500, body = error_body ''Failed to summarize content''\<rparr>,
           logging (ErrorSummarizingText e) w1)
      | (Inr summary, w1) \<Rightarrow>
          (case (case search_alternative_sources cfg bing summary 0 w1 of
                   (Inl e, w2) \<Rightarrow> ([], logging (ErrorFetchingSources e) w2)
                 | (Inr found, w2) \<Rightarrow> (if found = [] then [] else found, w2)) of
             (alternative_sources, w2) \<Rightarrow>
               (\<lparr>status = 200,
                 body = JObj [(''summary'', JStr summary),
                              (''metadata'', if is_dict metadata then metadata else JObj []),
                              (''alternative_sources'', JArr (map link_json alternative_sources))]\<rparr>,
                w2)))"

section \<open>Concrete configuration, services and requests\<close>

text \<open>
  The settings the program falls back to when the configuration file has none, a world in
  which nothing has happened yet, and fixed services and replies on which the theorems
  below are evaluated.
\<close>

definition default_config :: config where
  "default_config = \<lparr>max_tokens = 100, search_result_count = 5, search_retry_limit = 3\<rparr>"


definition fresh_world :: world where
  "fresh_world = \<lparr>search_requests = 0, logged = []\<rparr>"

definition failing_search :: search_service where
  "failing_search q c n = Inl RequestException"

definition replying_search :: "json \<Rightarrow> search_service" where
  "replying_search search_results q c n = Inr search_results"

definition chat_response :: "string \<Rightarrow> json" where
  "chat_response s = JObj [(''choices'', JArr [JObj [(''message'', JObj [(''content'', JStr s)])]])]"

definition replying_llm :: "string \<Rightarrow> llm_service" where
  "replying_llm s mt msg = Inr (chat_response s)"


definition duplicate_results :: json where
  "duplicate_results =
     JObj [(''webPages'', JObj [(''value'', JArr
       [JObj [(''name'', JStr ''first''), (''url'', JStr ''http://a''), (''snippet'', JStr ''s1'')],
        JObj [(''name'', JStr ''second''), (''url'', JStr ''http://a''), (''snippet'', JStr ''s2'')],
        JObj [(''name'', JStr ''third'')],
        JObj [(''name'', JStr ''fourth'')]])])]"

text \<open>
  The key under which the dict comprehension stores a link: \<^verbatim>\<open>link['url']\<close> as a dict key.
\<close>

definition url_key :: "link \<Rightarrow> py_error + dict_key" where
  "url_key l = hash_key (url l)"

section \<open>Properties of the Text Normalizer\<close>

lemma strip_decompose:
  "s = takeWhile isspace s @ strip s @ rev (takeWhile isspace (rev (dropWhile isspace s)))"
proof -
  let ?d = "dropWhile isspace s"
  have "rev ?d = takeWhile isspace (rev ?d) @ dropWhile isspace (rev ?d)"
    by simp
  then have "?d = rev (dropWhile isspace (rev ?d)) @ rev (takeWhile isspace (rev ?d))"
    by (metis rev_append rev_rev_ident)
  moreover have "s = takeWhile isspace s @ ?d"
    by simp
  ultimately show ?thesis
    unfolding strip_def by simp
qed

lemma strip_hd: "strip s \<noteq> [] \<Longrightarrow> \<not> isspace (hd (strip s))"
proof -
  assume ne: "strip s \<noteq> []"
  let ?d = "dropWhile isspace s"
  let ?e = "dropWhile isspace (rev ?d)"
  have d_ne: "?d \<noteq> []"
  proof
    assume "?d = []"
    then have "strip s = []" by (simp only: strip_def rev.simps dropWhile.simps)
    with ne show False by simp
  qed
  then have hd_d: "\<not> isspace (hd ?d)"
    by (rule hd_dropWhile)
  from ne have e_ne: "?e \<noteq> []"
    by (simp add: strip_def)
  have "rev ?d = takeWhile isspace (rev ?d) @ ?e"
    by simp
  then have "?d = rev ?e @ rev (takeWhile isspace (rev ?d))"
    by (metis rev_append rev_rev_ident)
  with e_ne have "hd ?d = hd (rev ?e)"
    by (metis hd_append2 rev_is_Nil_conv)
  with hd_d show ?thesis
    by (simp add: strip_def)
qed

lemma strip_last: "strip s \<noteq> [] \<Longrightarrow> \<not> isspace (last (strip s))"
proof -
  assume ne: "strip s \<noteq> []"
  let ?e = "dropWhile isspace (rev (dropWhile isspace s))"
  from ne have "?e \<noteq> []"
    by (simp add: strip_def)
  then have "\<not> isspace (hd ?e)"
    by (rule hd_dropWhile)
  moreover from \<open>?e \<noteq> []\<close> have "last (rev ?e) = hd ?e"
    by (simp add: last_rev)
  ultimately show ?thesis
    by (simp add: strip_def)
qed

lemma strip_id: "s = [] \<or> (\<not> isspace (hd s) \<and> \<not> isspace (last s)) \<Longrightarrow> strip s = s"
proof (cases "s = []")
  case True
  then show ?thesis by (simp add: strip_def)
next
  case False
  assume "s = [] \<or> (\<not> isspace (hd s) \<and> \<not> isspace (last s))"
  with False have h: "\<not> isspace (hd s)" and l: "\<not> isspace (last s)"
    by simp_all
  from False h have d: "dropWhile isspace s = s"
    by (cases s) simp_all
  from False l have "\<not> isspace (hd (rev s))"
    by (simp add: hd_rev)
  with False have "dropWhile isspace (rev s) = rev s"
    by (cases "rev s") simp_all
  with d show ?thesis
    by (simp add: strip_def)
qed

lemma strip_Nil: "strip [] = []"
  by (simp add: strip_def)

lemma strip_all_space: "(\<forall>c\<in>set s. isspace c) \<Longrightarrow> strip s = []"
proof -
  assume "\<forall>c\<in>set s. isspace c"
  then have "dropWhile isspace s = []" by simp
  then show ?thesis by (simp only: strip_def rev.simps dropWhile.simps)
qed

lemma strip_idem: "strip (strip s) = strip s"
proof (cases "strip s = []")
  case True
  then show ?thesis by (simp add: strip_Nil)
next
  case False
  then show ?thesis
    using strip_hd [of s] strip_last [of s] strip_id [of "strip s"] by simp
qed

text \<open>
  C7. On every text \<open>raw\<close> the normalizer returns a value: the input is a run of
  whitespace, the result, and a run of whitespace, so the result is a contiguous part of
  the input with nothing changed inside; the result neither starts nor ends with
  whitespace; a text that neither starts nor ends with whitespace is returned as it is;
  and the result is empty exactly when the input holds whitespace only.
\<close>

theorem preprocess_text_strips_ends_only:
  "\<exists>out pre suf.
      preprocess_text (JStr raw) = Inr out
    \<and> raw = pre @ out @ suf
    \<and> (\<forall>c\<in>set pre. isspace c)
    \<and> (\<forall>c\<in>set suf. isspace c)
    \<and> (out \<noteq> [] \<longrightarrow> \<not> isspace (hd out) \<and> \<not> isspace (last out))
    \<and> ((raw = [] \<or> (\<not> isspace (hd raw) \<and> \<not> isspace (last raw))) \<longrightarrow> out = raw)
    \<and> (out = [] \<longleftrightarrow> (\<forall>c\<in>set raw. isspace c))"
proof -
  let ?pre = "takeWhile isspace raw"
  let ?suf = "rev (takeWhile isspace (rev (dropWhile isspace raw)))"
  have dec: "raw = ?pre @ strip raw @ ?suf"
    by (rule strip_decompose)
  have pre: "\<forall>c\<in>set ?pre. isspace c"
    by (auto dest: set_takeWhileD)
  have suf: "\<forall>c\<in>set ?suf. isspace c"
    by (auto dest: set_takeWhileD)
  have ends: "strip raw \<noteq> [] \<longrightarrow> \<not> isspace (hd (strip raw)) \<and> \<not> isspace (last (strip raw))"
    using strip_hd strip_last by blast
  have ident: "(raw = [] \<or> (\<not> isspace (hd raw) \<and> \<not> isspace (last raw))) \<longrightarrow> strip raw = raw"
    using strip_id by blast
  have "strip raw = [] \<Longrightarrow> \<forall>c\<in>set raw. isspace c"
  proof -
    assume e: "strip raw = []"
    with dec have "raw = ?pre @ ?suf" by simp
    then have "set raw = set ?pre \<union> set ?suf"
      by (metis set_append)
    with pre suf show ?thesis by blast
  qed
  then have empty: "strip raw = [] \<longleftrightarrow> (\<forall>c\<in>set raw. isspace c)"
    using strip_all_space by blast
  have "preprocess_text (JStr raw) = Inr (strip raw)"
    by (simp add: preprocess_text_def)
  with dec pre suf ends ident empty show ?thesis
    by blast
qed

theorem preprocess_text_strips_ends_only_witness:
  "preprocess_text (JStr ''  Breaking news about X.  '') = Inr ''Breaking news about X.''
 \<and> preprocess_text (JStr ''a b'') = Inr ''a b''
 \<and> preprocess_text (JStr '' '') = Inr ''''"
proof -
  have sp: "isspace CHR '' ''" and a: "\<not> isspace CHR ''a''" and b: "\<not> isspace CHR ''b''"
    by (simp_all add: isspace_def)
  from preprocess_text_strips_ends_only [of "''a b''"] a b
  have "preprocess_text (JStr ''a b'') = Inr ''a b''"
    by auto
  moreover from preprocess_text_strips_ends_only [of "'' ''"] sp
  have "preprocess_text (JStr '' '') = Inr ''''"
    by auto
  moreover have "preprocess_text (JStr ''  Breaking news about X.  '') = Inr ''Breaking news about X.''"
    by (simp add: preprocess_text_def strip_def isspace_def)
  ultimately show ?thesis by blast
qed

section \<open>Properties of the Summarizer Client\<close>

lemma summarize_text_Inr:
  "summarize_text cfg llm text w = (Inr summary, w') \<Longrightarrow> w' = w \<and> summary \<noteq> [] \<and> strip summary = summary"
  by (auto simp: summarize_text_def extract_summary_def strip_idem
           split: sum.splits if_splits json.splits elim!: method_strip.elims)


lemma summary_run:
  "summarize_text default_config (replying_llm '' A summary. '') text fresh_world =
     (Inr ''A summary.'', fresh_world)"
  by (simp add: summarize_text_def extract_summary_def response_content_def replying_llm_def
        chat_response_def strip_def isspace_def)

lemma strip_news: "strip ''  Breaking news about X.  '' = ''Breaking news about X.''"
  by (simp add: strip_def isspace_def)

text \<open>
  C5. A summary that \<open>summarize_text\<close> returns is not empty and stays non-empty when it is
  trimmed. When the completion API replies and the content of its first choice is a str
  that is empty after trimming, \<open>summarize_text\<close> returns no summary: it logs the error and
  raises (a \<^verbatim>\<open>ValueError\<close>).
\<close>

theorem summarize_text_nonempty:
  "(summarize_text cfg llm text w = (Inr summary, w') \<longrightarrow> summary \<noteq> [] \<and> strip summary \<noteq> [])
 \<and> (llm (max_tokens cfg) (''Summarize and analyze: '' @ text) = Inr response
      \<and> response_content response = Inr (JStr c) \<and> strip c = []
      \<longrightarrow> summarize_text cfg llm text w = (Inl ValueError, logging (GptSummarizationError ValueError) w))"
proof (intro conjI impI)
  assume r: "summarize_text cfg llm text w = (Inr summary, w')"
  from summarize_text_Inr [OF r] show "summary \<noteq> []" by simp
  from summarize_text_Inr [OF r] show "strip summary \<noteq> []" by simp
next
  assume "llm (max_tokens cfg) (''Summarize and analyze: '' @ text) = Inr response
      \<and> response_content response = Inr (JStr c) \<and> strip c = []"
  then show "summarize_text cfg llm text w = (Inl ValueError, logging (GptSummarizationError ValueError) w)"
    by (simp add: summarize_text_def extract_summary_def)
qed

theorem summarize_text_nonempty_witness:
  "summarize_text default_config (replying_llm '' A summary. '') ''news'' fresh_world =
     (Inr ''A summary.'', fresh_world)
 \<and> strip ''A summary.'' \<noteq> []
 \<and> replying_llm ''   '' (max_tokens default_config) (''Summarize and analyze: '' @ ''news'')
      = Inr (chat_response ''   '')
 \<and> response_content (chat_response ''   '') = Inr (JStr ''   '')
 \<and> strip ''   '' = []
 \<and> summarize_text default_config (replying_llm ''   '') ''news'' fresh_world =
     (Inl ValueError, logging (GptSummarizationError ValueError) fresh_world)"
proof -
  have r: "summarize_text default_config (replying_llm '' A summary. '') ''news'' fresh_world =
     (Inr ''A summary.'', fresh_world)"
    by (rule summary_run)
  have h: "replying_llm ''   '' (max_tokens default_config) (''Summarize and analyze: '' @ ''news'')
      = Inr (chat_response ''   '')
    \<and> response_content (chat_response ''   '') = Inr (JStr ''   '') \<and> strip ''   '' = []"
    by (simp add: replying_llm_def response_content_def chat_response_def strip_def isspace_def)
  from summarize_text_nonempty [of default_config "replying_llm '' A summary. ''" "''news''" fresh_world "''A summary.''" fresh_world] r
  have a: "strip ''A summary.'' \<noteq> []" by blast
  from summarize_text_nonempty [of default_config "replying_llm ''   ''" "''news''" fresh_world _ _ "chat_response ''   ''" "''   ''"] h
  have b: "summarize_text default_config (replying_llm ''   '') ''news'' fresh_world =
     (Inl ValueError, logging (GptSummarizationError ValueError) fresh_world)" by blast
  from r a h b show ?thesis by blast
qed

section \<open>Properties of the Alternative-Source Finder\<close>

subsection \<open>Bounded retry\<close>

lemma sas_limit_reached:
  "search_retry_limit cfg \<le> retry_count \<Longrightarrow>
   search_alternative_sources cfg bing query retry_count w =
     (Inr [], logging (SearchRetryLimitReached query) w)"
  by (subst search_alternative_sources.simps) simp

lemma sas_retry:
  "\<not> search_retry_limit cfg \<le> retry_count \<Longrightarrow>
   bing query (search_result_count cfg) (search_requests w) = Inl RequestException \<Longrightarrow>
   search_alternative_sources cfg bing query retry_count w =
     search_alternative_sources cfg bing query (retry_count + 1)
       (logging (SearchRequestFailed RequestException) (w\<lparr>search_requests := Suc (search_requests w)\<rparr>))"
  by (subst search_alternative_sources.simps) simp

lemma sas_raise:
  "\<not> search_retry_limit cfg \<le> retry_count \<Longrightarrow>
   bing query (search_result_count cfg) (search_requests w) = Inl e \<Longrightarrow>
   e \<noteq> RequestException \<Longrightarrow>
   search_alternative_sources cfg bing query retry_count w =
     (Inl e, w\<lparr>search_requests := Suc (search_requests w)\<rparr>)"
  by (subst search_alternative_sources.simps) simp

lemma sas_reply:
  "\<not> search_retry_limit cfg \<le> retry_count \<Longrightarrow>
   bing query (search_result_count cfg) (search_requests w) = Inr search_results \<Longrightarrow>
   search_alternative_sources cfg bing query retry_count w =
     (case build_links search_results of
        Inl e \<Rightarrow> (Inl e, w\<lparr>search_requests := Suc (search_requests w)\<rparr>)
      | Inr links \<Rightarrow> (unique_links links, w\<lparr>search_requests := Suc (search_requests w)\<rparr>))"
  by (subst search_alternative_sources.simps) simp

lemma sas_requests_bound:
  "search_requests w \<le> search_requests (snd (search_alternative_sources cfg bing query retry_count w))
 \<and> search_requests (snd (search_alternative_sources cfg bing query retry_count w))
      \<le> search_requests w + nat (search_retry_limit cfg - retry_count)"
proof (induction cfg bing query retry_count w rule: search_alternative_sources.induct)
  case (1 cfg bing query retry_count w)
  show ?case
  proof (cases "search_retry_limit cfg \<le> retry_count")
    case True
    then show ?thesis
      by (simp add: sas_limit_reached logging_def)
  next
    case False
    then have step: "Suc (nat (search_retry_limit cfg - (retry_count + 1))) = nat (search_retry_limit cfg - retry_count)"
      by linarith
    show ?thesis
    proof (cases "bing query (search_result_count cfg) (search_requests w)")
      case (Inl e)
      show ?thesis
      proof (cases "e = RequestException")
        case True
        with Inl have f: "bing query (search_result_count cfg) (search_requests w) = Inl RequestException"
          by simp
        from "1.IH" [OF False Inl True] True step show ?thesis
          unfolding sas_retry [of cfg retry_count bing query w, OF False f] by (simp add: logging_def)
      next
        case neq: False
        from step show ?thesis
          unfolding sas_raise [of cfg retry_count bing query w e, OF False Inl neq] by simp
      qed
    next
      case (Inr search_results)
      from step show ?thesis
        unfolding sas_reply [of cfg retry_count bing query w search_results, OF False Inr] by (simp split: sum.splits)
    qed
  qed
qed

lemma sas_all_requests_fail:
  "(\<forall>n. bing query (search_result_count cfg) n = Inl RequestException) \<Longrightarrow>
   fst (search_alternative_sources cfg bing query retry_count w) = Inr []"
proof (induction cfg bing query retry_count w rule: search_alternative_sources.induct)
  case (1 cfg bing query retry_count w)
  show ?case
  proof (cases "search_retry_limit cfg \<le> retry_count")
    case True
    then show ?thesis
      by (simp add: sas_limit_reached)
  next
    case False
    from "1.prems" have f: "bing query (search_result_count cfg) (search_requests w) = Inl RequestException"
      by simp
    from "1.IH" [OF False f refl "1.prems"] show ?thesis
      unfolding sas_retry [of cfg retry_count bing query w, OF False f] by simp
  qed
qed

text \<open>
  Every call of the finder leaves a trace in the world: a request sent, or the log entry
  of the retry limit.
\<close>

lemma sas_leaves_trace:
  "search_requests w < search_requests (snd (search_alternative_sources cfg bing query retry_count w))
 \<or> snd (search_alternative_sources cfg bing query retry_count w) = logging (SearchRetryLimitReached query) w"
proof (cases "search_retry_limit cfg \<le> retry_count")
  case True
  then show ?thesis by (simp add: sas_limit_reached)
next
  case False
  show ?thesis
  proof (cases "bing query (search_result_count cfg) (search_requests w)")
    case (Inl e)
    show ?thesis
    proof (cases "e = RequestException")
      case True
      with Inl have f: "bing query (search_result_count cfg) (search_requests w) = Inl RequestException"
        by simp
      let ?w1 = "logging (SearchRequestFailed RequestException) (w\<lparr>search_requests := Suc (search_requests w)\<rparr>)"
      have "search_requests ?w1 \<le> search_requests (snd (search_alternative_sources cfg bing query (retry_count + 1) ?w1))"
        using sas_requests_bound by blast
      then show ?thesis
        unfolding sas_retry [of cfg retry_count bing query w, OF False f] by (simp add: logging_def)
    next
      case neq: False
      show ?thesis
        unfolding sas_raise [of cfg retry_count bing query w e, OF False Inl neq] by simp
    qed
  next
    case (Inr search_results)
    show ?thesis
      unfolding sas_reply [of cfg retry_count bing query w search_results, OF False Inr] by (simp split: sum.splits)
  qed
qed

subsection \<open>Bounded retry on a bounded stack\<close>

lemma stack_limit_reached:
  "search_retry_limit cfg \<le> retry_count \<Longrightarrow>
   search_alternative_sources_stack frames cfg bing query retry_count w =
     (Inr [], logging (SearchRetryLimitReached query) w)"
  by (subst search_alternative_sources_stack.simps) simp

lemma stack_retry:
  "\<not> search_retry_limit cfg \<le> retry_count \<Longrightarrow>
   bing query (search_result_count cfg) (search_requests w) = Inl RequestException \<Longrightarrow>
   search_alternative_sources_stack (Suc frames) cfg bing query retry_count w =
     search_alternative_sources_stack frames cfg bing query (retry_count + 1)
       (logging (SearchRequestFailed RequestException) (w\<lparr>search_requests := Suc (search_requests w)\<rparr>))"
  by (subst search_alternative_sources_stack.simps) simp


lemma stack_raise:
  "\<not> search_retry_limit cfg \<le> retry_count \<Longrightarrow>
   bing query (search_result_count cfg) (search_requests w) = Inl e \<Longrightarrow>
   e \<noteq> RequestException \<Longrightarrow>
   search_alternative_sources_stack frames cfg bing query retry_count w =
     (Inl e, w\<lparr>search_requests := Suc (search_requests w)\<rparr>)"
  by (subst search_alternative_sources_stack.simps) simp

lemma stack_reply:
  "\<not> search_retry_limit cfg \<le> retry_count \<Longrightarrow>
   bing query (search_result_count cfg) (search_requests w) = Inr search_results \<Longrightarrow>
   search_alternative_sources_stack frames cfg bing query retry_count w =
     (case build_links search_results of
        Inl e \<Rightarrow> (Inl e, w\<lparr>search_requests := Suc (search_requests w)\<rparr>)
      | Inr links \<Rightarrow> (unique_links links, w\<lparr>search_requests := Suc (search_requests w)\<rparr>))"
  by (subst search_alternative_sources_stack.simps) simp



text \<open>
  With room on the stack for every retry the two functions are the same.
\<close>

lemma stack_with_room:
  "nat (search_retry_limit cfg - retry_count) \<le> frames \<Longrightarrow>
   search_alternative_sources_stack frames cfg bing query retry_count w =
     search_alternative_sources cfg bing query retry_count w"
proof (induction frames arbitrary: retry_count w)
  case 0
  then have "search_retry_limit cfg \<le> retry_count" by simp
  then show ?case
    by (simp add: stack_limit_reached sas_limit_reached)
next
  case (Suc frames)
  show ?case
  proof (cases "search_retry_limit cfg \<le> retry_count")
    case True
    then show ?thesis
      by (simp add: stack_limit_reached sas_limit_reached)
  next
    case False
    show ?thesis
    proof (cases "bing query (search_result_count cfg) (search_requests w)")
      case (Inl e)
      show ?thesis
      proof (cases "e = RequestException")
        case True
        with Inl have f: "bing query (search_result_count cfg) (search_requests w) = Inl RequestException"
          by simp
        from Suc.prems False have "nat (search_retry_limit cfg - (retry_count + 1)) \<le> frames"
          by linarith
        from Suc.IH [OF this] show ?thesis
          unfolding stack_retry [of cfg retry_count bing query w frames, OF False f]
                    sas_retry [of cfg retry_count bing query w, OF False f] .
      next
        case neq: False
        show ?thesis
          unfolding stack_raise [of cfg retry_count bing query w e "Suc frames", OF False Inl neq]
                    sas_raise [of cfg retry_count bing query w e, OF False Inl neq] ..
      qed
    next
      case (Inr search_results)
      show ?thesis
        unfolding stack_reply [of cfg retry_count bing query w search_results "Suc frames", OF False Inr]
                  sas_reply [of cfg retry_count bing query w search_results, OF False Inr] ..
    qed
  qed
qed




subsection \<open>Deduplication by URL\<close>

lemma dict_setitem_keys:
  "map fst (dict_setitem d k v) = (if k \<in> set (map fst d) then map fst d else map fst d @ [k])"
proof (induction d)
  case Nil
  show ?case by simp
next
  case (Cons p d)
  obtain k' v' where p: "p = (k', v')" by (cases p)
  from Cons.IH show ?case
    by (cases "k' = k") (simp_all add: p)
qed

lemma dict_setitem_map_of: "map_of (dict_setitem d k v) = (map_of d)(k \<mapsto> v)"
  by (induction d) auto

lemma dict_setitem_set: "set (dict_setitem d k v) \<subseteq> insert (k, v) (set d)"
  by (induction d) (auto split: if_splits)

lemma dict_setitem_distinct: "distinct (map fst d) \<Longrightarrow> distinct (map fst (dict_setitem d k v))"
  by (simp add: dict_setitem_keys)

lemma remdups_append_dup:
  "x \<in> set ys \<Longrightarrow> remdups (xs @ x # ys) = remdups (xs @ ys)"
  by (induction xs) auto

lemma first_occurrences_dup:
  "x \<in> set as \<Longrightarrow> rev (remdups (rev (as @ x # rest))) = rev (remdups (rev (as @ rest)))"
  using remdups_append_dup [of x "rev as" "rev rest"] by simp

lemma url_dict_distinct:
  "url_dict d ls = Inr d' \<Longrightarrow> distinct (map fst d) \<Longrightarrow> distinct (map fst d')"
  by (induction ls arbitrary: d) (auto simp: dict_setitem_distinct split: sum.splits)

lemma url_dict_keys_match:
  "url_dict d ls = Inr d' \<Longrightarrow> (\<forall>(k, l)\<in>set d. url_key l = Inr k) \<Longrightarrow> (\<forall>(k, l)\<in>set d'. url_key l = Inr k)"
proof (induction ls arbitrary: d)
  case Nil
  then show ?case by simp
next
  case (Cons l ls)
  from Cons.prems(1) obtain k where k: "hash_key (url l) = Inr k"
    and rest: "url_dict (dict_setitem d k l) ls = Inr d'"
    by (auto split: sum.splits)
  have "\<forall>(k', l')\<in>set (dict_setitem d k l). url_key l' = Inr k'"
    using dict_setitem_set [of d k l] Cons.prems(2) k by (auto simp: url_key_def)
  with Cons.IH [OF rest] show ?case by simp
qed

lemma distinct_Inr_keys:
  "distinct (map (\<lambda>p. Inr (fst p) :: py_error + dict_key) d) = distinct (map fst d)"
  by (induction d) (auto simp: image_iff)

lemma url_dict_order:
  "url_dict d ls = Inr d' \<Longrightarrow> distinct (map fst d) \<Longrightarrow>
   map (\<lambda>p. Inr (fst p)) d' = rev (remdups (rev (map (\<lambda>p. Inr (fst p)) d @ map url_key ls)))"
proof (induction ls arbitrary: d)
  case Nil
  from Nil.prems have "distinct (map (\<lambda>p. Inr (fst p) :: py_error + dict_key) d)"
    by (simp add: distinct_Inr_keys)
  with Nil.prems show ?case by (simp add: distinct_remdups_id)
next
  case (Cons l ls)
  from Cons.prems(1) obtain k where k: "hash_key (url l) = Inr k"
    and rest: "url_dict (dict_setitem d k l) ls = Inr d'"
    by (auto split: sum.splits)
  from k have uk: "url_key l = Inr k"
    by (simp add: url_key_def)
  let ?f = "\<lambda>p. Inr (fst p) :: py_error + dict_key"
  have keys: "map ?f (dict_setitem d k l) = (if k \<in> set (map fst d) then map ?f d else map ?f d @ [Inr k])"
  proof -
    have "map ?f (dict_setitem d k l) = map Inr (map fst (dict_setitem d k l))"
      by simp
    also have "\<dots> = (if k \<in> set (map fst d) then map ?f d else map ?f d @ [Inr k])"
      by (cases "k \<in> set (map fst d)") (simp_all add: dict_setitem_keys del: set_map)
    finally show ?thesis .
  qed
  have "map ?f d' = rev (remdups (rev (map ?f (dict_setitem d k l) @ map url_key ls)))"
    by (rule Cons.IH [OF rest dict_setitem_distinct [OF Cons.prems(2)]])
  also have "\<dots> = rev (remdups (rev (map ?f d @ Inr k # map url_key ls)))"
  proof (cases "k \<in> set (map fst d)")
    case True
    then have "Inr k \<in> set (map ?f d)" by force
    from first_occurrences_dup [OF this] True keys show ?thesis by simp
  next
    case False
    with keys show ?thesis by simp
  qed
  finally show ?case
    using uk by simp
qed

lemma find_snoc:
  "find P (xs @ [y]) = (case find P xs of Some x \<Rightarrow> Some x | None \<Rightarrow> if P y then Some y else None)"
  by (induction xs) auto

lemma url_dict_map_of:
  "url_dict d ls = Inr d' \<Longrightarrow>
   map_of d' k = (case find (\<lambda>l. url_key l = Inr k) (rev ls) of Some l \<Rightarrow> Some l | None \<Rightarrow> map_of d k)"
proof (induction ls arbitrary: d)
  case Nil
  then show ?case by simp
next
  case (Cons l ls)
  from Cons.prems(1) obtain k0 where k0: "hash_key (url l) = Inr k0"
    and rest: "url_dict (dict_setitem d k0 l) ls = Inr d'"
    by (auto split: sum.splits)
  from Cons.IH [OF rest] k0 show ?case
    by (auto simp: find_snoc dict_setitem_map_of url_key_def split: option.splits)
qed

lemma distinct_filter_le_1:
  "distinct (map f xs) \<Longrightarrow> length (filter (\<lambda>x. f x = c) xs) \<le> 1"
  by (induction xs) (auto simp: filter_empty_conv image_iff)

lemma distinct_filter_eq_1:
  "distinct (map f xs) \<Longrightarrow> c \<in> f ` set xs \<Longrightarrow> length (filter (\<lambda>x. f x = c) xs) = 1"
  by (induction xs) (auto simp: filter_empty_conv image_iff)

lemma unique_links_props:
  assumes "unique_links links = Inr out"
  shows "distinct (map url_key out)"
    and "map url_key out = rev (remdups (rev (map url_key links)))"
    and "\<forall>kept\<in>set out. find (\<lambda>l. url_key l = url_key kept) (rev links) = Some kept"
proof -
  from assms obtain d where d: "url_dict [] links = Inr d" and out: "out = map snd d"
    by (auto simp: unique_links_def split: sum.splits)
  have dist: "distinct (map fst d)"
    using url_dict_distinct [OF d] by simp
  have match: "\<forall>(k, l)\<in>set d. url_key l = Inr k"
    using url_dict_keys_match [OF d] by simp
  then have keys: "map url_key out = map (\<lambda>p. Inr (fst p)) d"
    unfolding out by (auto simp: case_prod_beta)
  have "distinct (map (\<lambda>p. Inr (fst p) :: py_error + dict_key) d)"
    using dist by (simp add: distinct_Inr_keys)
  with keys show "distinct (map url_key out)" by simp
  from url_dict_order [OF d] keys show "map url_key out = rev (remdups (rev (map url_key links)))"
    by simp
  show "\<forall>kept\<in>set out. find (\<lambda>l. url_key l = url_key kept) (rev links) = Some kept"
  proof
    fix kept assume "kept \<in> set out"
    then obtain k where mem: "(k, kept) \<in> set d"
      unfolding out by auto
    with dist have "map_of d k = Some kept" by simp
    with url_dict_map_of [OF d, of k] have "find (\<lambda>l. url_key l = Inr k) (rev links) = Some kept"
      by (auto split: option.splits)
    moreover from match mem have "url_key kept = Inr k" by auto
    ultimately show "find (\<lambda>l. url_key l = url_key kept) (rev links) = Some kept" by simp
  qed
qed

lemma sas_success_from_last_reply:
  "search_alternative_sources cfg bing query retry_count w = (Inr out, w') \<Longrightarrow>
   search_requests w < search_requests w' \<Longrightarrow>
   bing query (search_result_count cfg) (search_requests w' - 1) = Inr search_results \<Longrightarrow>
   build_links search_results = Inr links \<Longrightarrow>
   unique_links links = Inr out"
proof (induction cfg bing query retry_count w rule: search_alternative_sources.induct)
  case (1 cfg bing query retry_count w)
  show ?case
  proof (cases "search_retry_limit cfg \<le> retry_count")
    case True
    with "1.prems"(1,2) show ?thesis
      by (auto simp: sas_limit_reached logging_def)
  next
    case False
    show ?thesis
    proof (cases "bing query (search_result_count cfg) (search_requests w)")
      case (Inl e)
      show ?thesis
      proof (cases "e = RequestException")
        case True
        with Inl have f: "bing query (search_result_count cfg) (search_requests w) = Inl RequestException"
          by simp
        let ?w1 = "logging (SearchRequestFailed e) (w\<lparr>search_requests := Suc (search_requests w)\<rparr>)"
        from "1.prems"(1) True have run: "search_alternative_sources cfg bing query (retry_count + 1) ?w1 = (Inr out, w')"
          by (simp add: sas_retry [of cfg retry_count bing query w, OF False f])
        from sas_requests_bound [of ?w1 cfg bing query "retry_count + 1"] run
        have "search_requests ?w1 \<le> search_requests w'" by simp
        moreover have "search_requests ?w1 \<noteq> search_requests w'"
        proof
          assume "search_requests ?w1 = search_requests w'"
          then have "search_requests w' - 1 = search_requests w"
            by (simp add: logging_def)
          with "1.prems"(3) f show False by simp
        qed
        ultimately have "search_requests ?w1 < search_requests w'" by simp
        from "1.IH" [OF False Inl True run this "1.prems"(3,4)] show ?thesis .
      next
        case neq: False
        from "1.prems"(1) show ?thesis
          by (simp add: sas_raise [of cfg retry_count bing query w e, OF False Inl neq])
      qed
    next
      case (Inr sr)
      from "1.prems"(1) have w': "search_requests w' = Suc (search_requests w)"
        by (auto simp: sas_reply [of cfg retry_count bing query w sr, OF False Inr] split: sum.splits)
      with "1.prems"(3) Inr have "sr = search_results" by simp
      with "1.prems"(1,4) show ?thesis
        by (simp add: sas_reply [of cfg retry_count bing query w sr, OF False Inr])
    qed
  qed
qed

lemma sas_success_is_unique_links:
  "search_alternative_sources cfg bing query retry_count w = (Inr out, w') \<Longrightarrow>
   \<exists>links. unique_links links = Inr out"
proof (induction cfg bing query retry_count w rule: search_alternative_sources.induct)
  case (1 cfg bing query retry_count w)
  show ?case
  proof (cases "search_retry_limit cfg \<le> retry_count")
    case True
    with "1.prems" have "out = []"
      by (simp add: sas_limit_reached)
    then have "unique_links [] = Inr out"
      by (simp add: unique_links_def)
    then show ?thesis ..
  next
    case False
    show ?thesis
    proof (cases "bing query (search_result_count cfg) (search_requests w)")
      case (Inl e)
      show ?thesis
      proof (cases "e = RequestException")
        case True
        with Inl have f: "bing query (search_result_count cfg) (search_requests w) = Inl RequestException"
          by simp
        from "1.prems" True "1.IH" [OF False Inl True] show ?thesis
          by (simp add: sas_retry [of cfg retry_count bing query w, OF False f])
      next
        case neq: False
        from "1.prems" show ?thesis
          by (simp add: sas_raise [of cfg retry_count bing query w e, OF False Inl neq])
      qed
    next
      case (Inr sr)
      from "1.prems" show ?thesis
        by (auto simp: sas_reply [of cfg retry_count bing query w sr, OF False Inr] split: sum.splits)
    qed
  qed
qed

lemma url_key_None: "url_key l = Inr KNone \<longleftrightarrow> url l = JNull"
  by (cases "url l") (simp_all add: url_key_def)

lemma duplicate_run:
  "search_alternative_sources default_config (replying_search duplicate_results) ''q'' 0 fresh_world =
     (Inr [\<lparr>title = JStr ''second'', url = JStr ''http://a'', snippet = JStr ''s2''\<rparr>,
           \<lparr>title = JStr ''fourth'', url = JNull, snippet = JNull\<rparr>],
      \<lparr>search_requests = 1, logged = []\<rparr>)"
  by (simp add: search_alternative_sources.simps default_config_def replying_search_def
        fresh_world_def duplicate_results_def build_links_def to_link_def unique_links_def)

lemma duplicate_links:
  "build_links duplicate_results =
     Inr [\<lparr>title = JStr ''first'', url = JStr ''http://a'', snippet = JStr ''s1''\<rparr>,
          \<lparr>title = JStr ''second'', url = JStr ''http://a'', snippet = JStr ''s2''\<rparr>,
          \<lparr>title = JStr ''third'', url = JNull, snippet = JNull\<rparr>,
          \<lparr>title = JStr ''fourth'', url = JNull, snippet = JNull\<rparr>]"
  by (simp add: duplicate_results_def build_links_def to_link_def)

text \<open>
  C1, as stated, fails. The search API replies with four results; the first two have the
  same URL. The finder returns, for that URL, the second result: the first one encountered
  is not in the returned list.
\<close>

theorem finder_first_entry_not_kept:
  "build_links duplicate_results =
     Inr [\<lparr>title = JStr ''first'', url = JStr ''http://a'', snippet = JStr ''s1''\<rparr>,
          \<lparr>title = JStr ''second'', url = JStr ''http://a'', snippet = JStr ''s2''\<rparr>,
          \<lparr>title = JStr ''third'', url = JNull, snippet = JNull\<rparr>,
          \<lparr>title = JStr ''fourth'', url = JNull, snippet = JNull\<rparr>]
 \<and> fst (search_alternative_sources default_config (replying_search duplicate_results) ''q'' 0 fresh_world) =
     Inr [\<lparr>title = JStr ''second'', url = JStr ''http://a'', snippet = JStr ''s2''\<rparr>,
          \<lparr>title = JStr ''fourth'', url = JNull, snippet = JNull\<rparr>]
 \<and> \<lparr>title = JStr ''first'', url = JStr ''http://a'', snippet = JStr ''s1''\<rparr>
      \<notin> set [\<lparr>title = JStr ''second'', url = JStr ''http://a'', snippet = JStr ''s2''\<rparr>,
          \<lparr>title = JStr ''fourth'', url = JNull, snippet = JNull\<rparr>]"
  by (simp add: duplicate_links duplicate_run)

text \<open>
  C1, amended. When a call of the finder returns a list \<open>out\<close> after a reply of the search
  API (the reply to the last request sent) from which the list \<open>links\<close> was built: every URL
  of \<open>links\<close> is the URL of exactly one entry of \<open>out\<close>; the URLs of \<open>out\<close> are those of
  \<open>links\<close> in the order of their first occurrence; and the entry kept for a URL is the
  last entry of \<open>links\<close> with that URL. URLs are compared as dict keys (\<open>url_key\<close>).
\<close>

theorem finder_keeps_last_entry_per_url:
  assumes "search_alternative_sources cfg bing query retry_count w = (Inr out, w')"
      and "search_requests w < search_requests w'"
      and "bing query (search_result_count cfg) (search_requests w' - 1) = Inr search_results"
      and "build_links search_results = Inr links"
  shows "(\<forall>l\<in>set links. length (filter (\<lambda>kept. url_key kept = url_key l) out) = 1)
       \<and> map url_key out = rev (remdups (rev (map url_key links)))
       \<and> (\<forall>kept\<in>set out. find (\<lambda>l. url_key l = url_key kept) (rev links) = Some kept)"
proof -
  have u: "unique_links links = Inr out"
    using assms by (rule sas_success_from_last_reply)
  note p = unique_links_props [OF u]
  have "\<forall>l\<in>set links. length (filter (\<lambda>kept. url_key kept = url_key l) out) = 1"
  proof
    fix l assume "l \<in> set links"
    then have "url_key l \<in> set (rev (remdups (rev (map url_key links))))" by simp
    with p(2) have "url_key l \<in> url_key ` set out" by (metis set_map)
    with p(1) show "length (filter (\<lambda>kept. url_key kept = url_key l) out) = 1"
      by (rule distinct_filter_eq_1)
  qed
  with p(2,3) show ?thesis by blast
qed

theorem finder_keeps_last_entry_per_url_witness:
  "search_alternative_sources default_config (replying_search duplicate_results) ''q'' 0 fresh_world =
     (Inr [\<lparr>title = JStr ''second'', url = JStr ''http://a'', snippet = JStr ''s2''\<rparr>,
           \<lparr>title = JStr ''fourth'', url = JNull, snippet = JNull\<rparr>],
      \<lparr>search_requests = 1, logged = []\<rparr>)
 \<and> search_requests fresh_world < search_requests \<lparr>search_requests = 1, logged = []\<rparr>
 \<and> replying_search duplicate_results ''q'' (search_result_count default_config)
      (search_requests \<lparr>search_requests = 1, logged = []\<rparr> - 1) = Inr duplicate_results
 \<and> find (\<lambda>l. url_key l = url_key \<lparr>title = JStr ''second'', url = JStr ''http://a'', snippet = JStr ''s2''\<rparr>)
      (rev [\<lparr>title = JStr ''first'', url = JStr ''http://a'', snippet = JStr ''s1''\<rparr>,
            \<lparr>title = JStr ''second'', url = JStr ''http://a'', snippet = JStr ''s2''\<rparr>,
            \<lparr>title = JStr ''third'', url = JNull, snippet = JNull\<rparr>,
            \<lparr>title = JStr ''fourth'', url = JNull, snippet = JNull\<rparr>])
      = Some \<lparr>title = JStr ''second'', url = JStr ''http://a'', snippet = JStr ''s2''\<rparr>
 \<and> length (filter (\<lambda>kept. url_key kept = url_key \<lparr>title = JStr ''first'', url = JStr ''http://a'', snippet = JStr ''s1''\<rparr>)
      [\<lparr>title = JStr ''second'', url = JStr ''http://a'', snippet = JStr ''s2''\<rparr>,
       \<lparr>title = JStr ''fourth'', url = JNull, snippet = JNull\<rparr>]) = 1"
proof -
  have h2: "search_requests fresh_world < search_requests \<lparr>search_requests = 1, logged = []\<rparr>"
    by (simp add: fresh_world_def)
  have h3: "replying_search duplicate_results ''q'' (search_result_count default_config)
      (search_requests \<lparr>search_requests = 1, logged = []\<rparr> - 1) = Inr duplicate_results"
    by (simp add: replying_search_def)
  from finder_keeps_last_entry_per_url [OF duplicate_run h2 h3 duplicate_links] duplicate_run h2 h3
  show ?thesis by simp
qed

text \<open>
  C10. A list that the finder returns has at most one entry whose \<^verbatim>\<open>url\<close> is \<^verbatim>\<open>None\<close>; when
  the reply of the search API has results without a URL, the returned list has exactly
  one such entry.
\<close>

theorem at_most_one_entry_without_url:
  assumes "search_alternative_sources cfg bing query retry_count w = (Inr out, w')"
  shows "length (filter (\<lambda>l. url l = JNull) out) \<le> 1
       \<and> (\<forall>search_results links.
            search_requests w < search_requests w'
          \<and> bing query (search_result_count cfg) (search_requests w' - 1) = Inr search_results
          \<and> build_links search_results = Inr links
          \<and> (\<exists>l\<in>set links. url l = JNull)
          \<longrightarrow> length (filter (\<lambda>l. url l = JNull) out) = 1)"
proof -
  from sas_success_is_unique_links [OF assms] obtain links0 where "unique_links links0 = Inr out" ..
  then have "distinct (map url_key out)" by (rule unique_links_props(1))
  then have le: "length (filter (\<lambda>l. url_key l = Inr KNone) out) \<le> 1"
    by (rule distinct_filter_le_1)
  have eq: "\<And>search_results links.
            search_requests w < search_requests w'
          \<and> bing query (search_result_count cfg) (search_requests w' - 1) = Inr search_results
          \<and> build_links search_results = Inr links
          \<and> (\<exists>l\<in>set links. url l = JNull)
          \<Longrightarrow> length (filter (\<lambda>l. url_key l = Inr KNone) out) = 1"
  proof -
    fix search_results links
    assume h: "search_requests w < search_requests w'
          \<and> bing query (search_result_count cfg) (search_requests w' - 1) = Inr search_results
          \<and> build_links search_results = Inr links
          \<and> (\<exists>l\<in>set links. url l = JNull)"
    then have u: "unique_links links = Inr out"
      using sas_success_from_last_reply [OF assms] by blast
    from h obtain l where l: "l \<in> set links" "url_key l = Inr KNone"
      by (auto simp: url_key_None)
    then have "Inr KNone \<in> set (rev (remdups (rev (map url_key links))))" by force
    with unique_links_props(2) [OF u] have "Inr KNone \<in> url_key ` set out" by (metis set_map)
    with unique_links_props(1) [OF u] show "length (filter (\<lambda>l. url_key l = Inr KNone) out) = 1"
      by (rule distinct_filter_eq_1)
  qed
  from le eq show ?thesis
    unfolding url_key_None by blast
qed

theorem at_most_one_entry_without_url_witness:
  "search_alternative_sources default_config (replying_search duplicate_results) ''q'' 0 fresh_world =
     (Inr [\<lparr>title = JStr ''second'', url = JStr ''http://a'', snippet = JStr ''s2''\<rparr>,
           \<lparr>title = JStr ''fourth'', url = JNull, snippet = JNull\<rparr>],
      \<lparr>search_requests = 1, logged = []\<rparr>)
 \<and> length (filter (\<lambda>l. url l = JNull)
      [\<lparr>title = JStr ''second'', url = JStr ''http://a'', snippet = JStr ''s2''\<rparr>,
       \<lparr>title = JStr ''fourth'', url = JNull, snippet = JNull\<rparr>]) = 1"
proof -
  have h: "search_requests fresh_world < search_requests \<lparr>search_requests = 1, logged = []\<rparr>
     \<and> replying_search duplicate_results ''q'' (search_result_count default_config)
          (search_requests \<lparr>search_requests = 1, logged = []\<rparr> - 1) = Inr duplicate_results
     \<and> build_links duplicate_results =
         Inr [\<lparr>title = JStr ''first'', url = JStr ''http://a'', snippet = JStr ''s1''\<rparr>,
              \<lparr>title = JStr ''second'', url = JStr ''http://a'', snippet = JStr ''s2''\<rparr>,
              \<lparr>title = JStr ''third'', url = JNull, snippet = JNull\<rparr>,
              \<lparr>title = JStr ''fourth'', url = JNull, snippet = JNull\<rparr>]
     \<and> (\<exists>l\<in>set [\<lparr>title = JStr ''first'', url = JStr ''http://a'', snippet = JStr ''s1''\<rparr>,
              \<lparr>title = JStr ''second'', url = JStr ''http://a'', snippet = JStr ''s2''\<rparr>,
              \<lparr>title = JStr ''third'', url = JNull, snippet = JNull\<rparr>,
              \<lparr>title = JStr ''fourth'', url = JNull, snippet = JNull\<rparr>]. url l = JNull)"
    by (simp add: fresh_world_def replying_search_def duplicate_links)
  from at_most_one_entry_without_url [OF duplicate_run] h
  have "length (filter (\<lambda>l. url l = JNull)
      [\<lparr>title = JStr ''second'', url = JStr ''http://a'', snippet = JStr ''s2''\<rparr>,
       \<lparr>title = JStr ''fourth'', url = JNull, snippet = JNull\<rparr>]) = 1"
    by blast
  with duplicate_run show ?thesis by blast
qed

section \<open>Properties of the Request Orchestrator\<close>

text \<open>
  A request is valid when its body is a dict whose \<^verbatim>\<open>content\<close> is a str that is not empty
  after trimming. For such a request \<open>analyze_content\<close> is the summarizer followed by the
  finder.
\<close>

lemma analyze_content_valid:
  assumes "map_of kvs ''content'' = Some (JStr c)" and "strip c \<noteq> []"
  shows "analyze_content cfg llm bing (Inr (JObj kvs)) w =
     (case summarize_text cfg llm (strip c) w of
        (Inl e, w1) \<Rightarrow>
          (\<lparr>status = 500, body = error_body ''Failed to summarize content''\<rparr>,
           logging (ErrorSummarizingText e) w1)
      | (Inr summary, w1) \<Rightarrow>
          (case (case search_alternative_sources cfg bing summary 0 w1 of
                   (Inl e, w2) \<Rightarrow> ([], logging (ErrorFetchingSources e) w2)
                 | (Inr found, w2) \<Rightarrow> (found, w2)) of
             (alternative_sources, w2) \<Rightarrow>
               (\<lparr>status = 200,
                 body = JObj [(''summary'', JStr summary),
                              (''metadata'', case map_of kvs ''metadata'' of
                                               None \<Rightarrow> JObj []
                                             | Some v \<Rightarrow> if is_dict v then v else JObj []),
                              (''alternative_sources'', JArr (map link_json alternative_sources))]\<rparr>,
                w2)))"
proof -
  from assms(1) have ne: "kvs \<noteq> []" by auto
  show ?thesis
    using assms ne
    by (auto simp: analyze_content_def preprocess_text_def split: sum.splits prod.splits option.splits)
qed

text \<open>
  C2, as stated, fails. The body \<^verbatim>\<open>{}\<close> is an empty dict, which \<^verbatim>\<open>not data\<close> takes for a
  missing body: the answer is 400 with the message of the first check, not
  \<^verbatim>\<open>No content provided\<close>.
\<close>

theorem empty_object_not_no_content:
  "analyze_content default_config (replying_llm ''A summary.'') failing_search (Inr (JObj [])) fresh_world =
     (\<lparr>status = 400, body = JObj [(''error'', JStr ''Invalid or missing JSON body'')]\<rparr>, fresh_world)
 \<and> JObj [(''error'', JStr ''Invalid or missing JSON body'')] \<noteq> JObj [(''error'', JStr ''No content provided'')]"
  by (simp add: analyze_content_def error_body_def)

text \<open>
  C2, amended. The body \<^verbatim>\<open>{}\<close> is answered with 400 and
  \<^verbatim>\<open>{"error": "Invalid or missing JSON body"}\<close>; a JSON object that has fields but no
  \<^verbatim>\<open>content\<close> field is answered with 400 and \<^verbatim>\<open>{"error": "No content provided"}\<close>. Neither
  changes the world.
\<close>

theorem empty_object_rejected_as_missing_body:
  "analyze_content cfg llm bing (Inr (JObj [])) w =
     (\<lparr>status = 400, body = error_body ''Invalid or missing JSON body''\<rparr>, w)
 \<and> (kvs \<noteq> [] \<and> map_of kvs ''content'' = None \<longrightarrow>
      analyze_content cfg llm bing (Inr (JObj kvs)) w =
        (\<lparr>status = 400, body = error_body ''No content provided''\<rparr>, w))"
  by (simp add: analyze_content_def preprocess_text_def strip_Nil)

theorem empty_object_rejected_as_missing_body_witness:
  "[(''metadata'', JObj [])] \<noteq> []
 \<and> map_of [(''metadata'', JObj [])] ''content'' = None
 \<and> analyze_content default_config (replying_llm '' A summary. '') failing_search
       (Inr (JObj [(''metadata'', JObj [])])) fresh_world =
      (\<lparr>status = 400, body = error_body ''No content provided''\<rparr>, fresh_world)"
proof -
  have h: "[(''metadata'', JObj [])] \<noteq> [] \<and> map_of [(''metadata'', JObj [])] ''content'' = None"
    by simp
  from empty_object_rejected_as_missing_body [of default_config "replying_llm '' A summary. ''" failing_search fresh_world
         "[(''metadata'', JObj [])]"] h
  show ?thesis by blast
qed





text \<open>
  C4. On a valid request whose summary was produced, a finder that raises, or whose
  requests all fail with a \<open>RequestException\<close>, does not fail the request: the answer is 200
  with the summary, which is not empty, and an empty list of alternative sources.
\<close>

theorem search_failure_not_fatal:
  assumes "map_of kvs ''content'' = Some (JStr c)" and "strip c \<noteq> []"
      and "summarize_text cfg llm (strip c) w = (Inr summary, w1)"
      and "(\<exists>e. fst (search_alternative_sources cfg bing summary 0 w1) = Inl e)
         \<or> (\<forall>n. bing summary (search_result_count cfg) n = Inl RequestException)"
  shows "\<exists>md. fst (analyze_content cfg llm bing (Inr (JObj kvs)) w) =
           \<lparr>status = 200,
            body = JObj [(''summary'', JStr summary), (''metadata'', md),
                         (''alternative_sources'', JArr [])]\<rparr>
       \<and> summary \<noteq> [] \<and> strip summary \<noteq> []"
proof -
  from summarize_text_Inr [OF assms(3)] have s: "summary \<noteq> []" "strip summary \<noteq> []"
    by simp_all
  from assms(4) have "fst (search_alternative_sources cfg bing summary 0 w1) = Inr []
      \<or> (\<exists>e. fst (search_alternative_sources cfg bing summary 0 w1) = Inl e)"
    using sas_all_requests_fail [of bing summary cfg 0 w1] by blast
  then have "\<exists>md. fst (analyze_content cfg llm bing (Inr (JObj kvs)) w) =
           \<lparr>status = 200,
            body = JObj [(''summary'', JStr summary), (''metadata'', md),
                         (''alternative_sources'', JArr [])]\<rparr>"
    using assms(3)
    by (cases "search_alternative_sources cfg bing summary 0 w1")
       (auto simp: analyze_content_valid [OF assms(1,2)])
  with s show ?thesis by blast
qed

lemma malformed_reply_run:
  "search_alternative_sources default_config (replying_search (JArr [])) ''A summary.'' 0 fresh_world =
     (Inl AttributeError, \<lparr>search_requests = 1, logged = []\<rparr>)"
  by (simp add: search_alternative_sources.simps default_config_def replying_search_def
        fresh_world_def build_links_def)

theorem search_failure_not_fatal_witness:
  "map_of [(''content'', JStr ''  Breaking news about X.  '')] ''content'' = Some (JStr ''  Breaking news about X.  '')
 \<and> strip ''  Breaking news about X.  '' \<noteq> []
 \<and> summarize_text default_config (replying_llm '' A summary. '') (strip ''  Breaking news about X.  '') fresh_world
      = (Inr ''A summary.'', fresh_world)
 \<and> (\<forall>n. failing_search ''A summary.'' (search_result_count default_config) n = Inl RequestException)
 \<and> (\<exists>md. fst (analyze_content default_config (replying_llm '' A summary. '') failing_search
       (Inr (JObj [(''content'', JStr ''  Breaking news about X.  '')])) fresh_world) =
      \<lparr>status = 200,
       body = JObj [(''summary'', JStr ''A summary.''), (''metadata'', md),
                    (''alternative_sources'', JArr [])]\<rparr>)
 \<and> fst (search_alternative_sources default_config (replying_search (JArr [])) ''A summary.'' 0 fresh_world)
      = Inl AttributeError
 \<and> (\<exists>md. fst (analyze_content default_config (replying_llm '' A summary. '') (replying_search (JArr []))
       (Inr (JObj [(''content'', JStr ''  Breaking news about X.  '')])) fresh_world) =
      \<lparr>status = 200,
       body = JObj [(''summary'', JStr ''A summary.''), (''metadata'', md),
                    (''alternative_sources'', JArr [])]\<rparr>)"
proof -
  have h1: "map_of [(''content'', JStr ''  Breaking news about X.  '')] ''content'' = Some (JStr ''  Breaking news about X.  '')"
    by simp
  have h2: "strip ''  Breaking news about X.  '' \<noteq> []"
    by (simp add: strip_news)
  have h3: "summarize_text default_config (replying_llm '' A summary. '') (strip ''  Breaking news about X.  '') fresh_world
      = (Inr ''A summary.'', fresh_world)"
    by (rule summary_run)
  have h4: "\<forall>n. failing_search ''A summary.'' (search_result_count default_config) n = Inl RequestException"
    by (simp add: failing_search_def)
  from h4 have h4': "(\<exists>e. fst (search_alternative_sources default_config failing_search ''A summary.'' 0 fresh_world) = Inl e)
         \<or> (\<forall>n. failing_search ''A summary.'' (search_result_count default_config) n = Inl RequestException)"
    by blast
  have h5: "fst (search_alternative_sources default_config (replying_search (JArr [])) ''A summary.'' 0 fresh_world)
      = Inl AttributeError"
    by (simp add: malformed_reply_run)
  then have h5': "(\<exists>e. fst (search_alternative_sources default_config (replying_search (JArr [])) ''A summary.'' 0 fresh_world) = Inl e)
         \<or> (\<forall>n. replying_search (JArr []) ''A summary.'' (search_result_count default_config) n = Inl RequestException)"
    by blast
  from search_failure_not_fatal [OF h1 h2 h3 h4'] search_failure_not_fatal [OF h1 h2 h3 h5'] h1 h2 h3 h4 h5
  show ?thesis by blast
qed



end
